theory Spec2Isabelle
  imports Complex_Main "HOL-Library.Word"
begin

unbundle bit_operations_syntax

section \<open>The capture-process-display script \<open>pose_detection.py\<close>\<close>

text \<open>
  The script is one linear program around four external collaborators: the camera
  (\<open>cv2.VideoCapture\<close>), the pose estimator (\<open>mp_pose.Pose\<close>), the drawing helper
  (\<open>mp_drawing.draw_landmarks\<close>) and the window toolkit (\<open>cv2.imshow\<close>,
  \<open>cv2.waitKey\<close>). The embedding keeps the script's statements in their order and makes
  every call to a collaborator an event of a trace. What a collaborator answers is taken
  from a \<open>world\<close>: a record of functions that receive the whole history of events
  before the call, so that an answer may depend on everything that happened so far
  (a camera that fails a hundred times and then delivers, an estimator that tracks).
  Collaborators are taken to return normally; the only exit the script itself raises is
  \<open>sys.exit()\<close>.
\<close>

subsection \<open>Data\<close>

text \<open>A frame is a grid of pixels with three 8-bit channels (a \<open>numpy\<close> array of \<open>uint8\<close>).\<close>

type_synonym pixel = "8 word \<times> 8 word \<times> 8 word"
type_synonym frame = "pixel list list"

text \<open>The names of the \<open>cv2\<close> constants the script passes on.\<close>

datatype capture_api = CAP_V4L2
datatype capture_prop = CAP_PROP_FRAME_WIDTH | CAP_PROP_FRAME_HEIGHT
datatype color_code = COLOR_BGR2RGB

text \<open>The keyword arguments of \<open>mp_pose.Pose(...)\<close>, lines 7 to 12.\<close>

record pose_options =
  static_image_mode :: bool
  model_complexity :: nat
  min_detection_confidence :: real
  min_tracking_confidence :: real

text \<open>
  One event per call that leaves the script. Calls whose answer steers the script carry
  the answer too. The landmark list \<open>'l\<close> is opaque: the script only hands it on.
\<close>

datatype 'l event =
    PoseInit pose_options
  | Print string
  | VideoCapture nat capture_api
  | IsOpened bool
  | CapSet capture_prop int
  | is_Read: Read bool "frame option"
  | CvtColor frame color_code
  | is_Process: Process frame "'l option"
  | is_Draw: DrawLandmarks frame 'l "(nat \<times> nat) set"
  | is_ImShow: ImShow string frame
  | is_WaitKey: WaitKey int int
  | Release
  | DestroyAllWindows
  | SysExit "int option"

record 'l world =
  cap_isOpened :: "'l event list \<Rightarrow> bool"
  cap_read :: "'l event list \<Rightarrow> bool \<times> frame option"
  cvtColor :: "frame \<Rightarrow> color_code \<Rightarrow> frame"
  pose_process :: "'l event list \<Rightarrow> frame \<Rightarrow> 'l option"
  POSE_CONNECTIONS :: "(nat \<times> nat) set"
  draw_landmarks :: "frame \<Rightarrow> 'l \<Rightarrow> (nat \<times> nat) set \<Rightarrow> frame"
  waitKey :: "'l event list \<Rightarrow> int \<Rightarrow> int"

subsection \<open>Constants of the script\<close>

definition pose_config :: pose_options where
  "pose_config = \<lparr>static_image_mode = False, model_complexity = 0,
     min_detection_confidence = 0.5, min_tracking_confidence = 0.5\<rparr>"

text \<open>
  The console messages. Python strings are sequences of code points; every code point
  of these literals is below 256, so one \<open>char\<close> stands for one code point
  (\<open>0xE1\<close> is a-acute).
\<close>

definition msg_starting :: string where
  "msg_starting = ''Iniciando c'' @ [CHR 0xE1] @ ''mara IMX708...''"

definition msg_open_error :: string where
  "msg_open_error = ''Error: No se pudo acceder a la c'' @ [CHR 0xE1] @ ''mara.''"

definition msg_configured :: string where
  "msg_configured = ''C'' @ [CHR 0xE1] @ ''mara configurada. Iniciando procesamiento...''"

definition msg_press_esc :: string where
  "msg_press_esc = ''Presiona ESC para salir.''"

definition window_title :: string where
  "window_title = ''MediaPipe Pose IMX708''"

subsection \<open>One pass through the loop body\<close>

datatype control = Continue | Break

text \<open>Line 34: \<open>not success or frame is None\<close>.\<close>

definition frame_rejected :: "bool \<Rightarrow> frame option \<Rightarrow> bool" where
  "frame_rejected success frame \<longleftrightarrow> \<not> success \<or> frame = None"

text \<open>
  Lines 38 to 54, for a frame that passed line 34. \<open>cv2.cvtColor\<close> returns a new array,
  bound to \<open>img_rgb\<close>; \<open>draw_landmarks\<close> writes into its first argument, which is
  modelled by rebinding \<open>frame\<close>. In Python \<open>&\<close> binds tighter than \<open>==\<close>, so line 53
  compares the masked key with 27.
\<close>

definition process_frame ::
  "'l world \<Rightarrow> 'l event list \<Rightarrow> frame \<Rightarrow> control \<times> 'l event list" where
  "process_frame w h frame =
    (let img_rgb = cvtColor w frame COLOR_BGR2RGB;
         e1 = [CvtColor frame COLOR_BGR2RGB];
         results = pose_process w (h @ e1) img_rgb;
         e2 = e1 @ [Process img_rgb results];
         (frame', e3) =
           (case results of
              None \<Rightarrow> (frame, e2)
            | Some pose_landmarks \<Rightarrow>
                (draw_landmarks w frame pose_landmarks (POSE_CONNECTIONS w),
                 e2 @ [DrawLandmarks frame pose_landmarks (POSE_CONNECTIONS w)]));
         e4 = e3 @ [ImShow window_title frame'];
         key = waitKey w (h @ e4) 1;
         e5 = e4 @ [WaitKey 1 key]
     in if key AND 0xFF = 27 then (Break, e5) else (Continue, e5))"

text \<open>Lines 31 to 54: the read, the guard with its \<open>continue\<close>, then the rest.\<close>

definition iteration :: "'l world \<Rightarrow> 'l event list \<Rightarrow> control \<times> 'l event list" where
  "iteration w h =
    (case cap_read w h of
       (success, frame) \<Rightarrow>
         if frame_rejected success frame then (Continue, [Read success frame])
         else (case frame of
                 None \<Rightarrow> (Continue, [Read success frame])
               | Some f \<Rightarrow>
                   (case process_frame w (h @ [Read success frame]) f of
                      (c, evs) \<Rightarrow> (c, Read success frame # evs))))"

subsection \<open>The loop and the script\<close>

text \<open>
  The \<open>while cap.isOpened()\<close> loop has no bound of its own, so it runs on fuel: one unit
  per test of the loop condition. It returns how it ended and the events it produced.
\<close>

datatype loop_end = ConditionFalse | BrokeOut | OutOfFuel

fun capture_loop :: "nat \<Rightarrow> 'l world \<Rightarrow> 'l event list \<Rightarrow> loop_end \<times> 'l event list" where
  "capture_loop 0 w h = (OutOfFuel, [])"
| "capture_loop (Suc n) w h =
    (if cap_isOpened w h then
       (case iteration w (h @ [IsOpened True]) of
          (Break, evs) \<Rightarrow> (BrokeOut, IsOpened True # evs)
        | (Continue, evs) \<Rightarrow>
            (case capture_loop n w (h @ IsOpened True # evs) of
               (e, evs') \<Rightarrow> (e, IsOpened True # evs @ evs')))
     else (ConditionFalse, [IsOpened False]))"

text \<open>
  \<open>sys.exit(arg)\<close>: the exit status is the integer argument, and zero when the argument
  is left out. A script that runs off its last line exits with status zero as well.
\<close>

fun sys_exit_status :: "int option \<Rightarrow> int" where
  "sys_exit_status None = 0"
| "sys_exit_status (Some n) = n"

datatype 'l outcome =
    Exited int "'l event list"
  | Unfinished "'l event list"

fun trace_of :: "'l outcome \<Rightarrow> 'l event list" where
  "trace_of (Exited st tr) = tr"
| "trace_of (Unfinished tr) = tr"

fun exit_status :: "'l outcome \<Rightarrow> int option" where
  "exit_status (Exited st tr) = Some st"
| "exit_status (Unfinished tr) = None"

text \<open>Lines 7 to 17: everything up to the first test of the camera handle.\<close>

definition startup :: "'l event list" where
  "startup = [PoseInit pose_config, Print msg_starting, VideoCapture 0 CAP_V4L2]"

text \<open>Lines 19 to 28 on the path where the camera opened.\<close>

definition configured :: "'l event list" where
  "configured = startup @
     [IsOpened True,
      CapSet CAP_PROP_FRAME_WIDTH 640, CapSet CAP_PROP_FRAME_HEIGHT 480,
      Print msg_configured, Print msg_press_esc]"

definition pose_detection :: "nat \<Rightarrow> 'l world \<Rightarrow> 'l outcome" where
  "pose_detection fuel w =
    (if \<not> cap_isOpened w startup then
       Exited (sys_exit_status None)
         (startup @ [IsOpened False, Print msg_open_error, SysExit None])
     else
       (case capture_loop fuel w configured of
          (OutOfFuel, evs) \<Rightarrow> Unfinished (configured @ evs)
        | (_, evs) \<Rightarrow> Exited 0 (configured @ evs @ [Release, DestroyAllWindows])))"

subsection \<open>Reading a trace\<close>

text \<open>A read that line 34 lets through.\<close>

fun valid_read :: "'l event \<Rightarrow> bool" where
  "valid_read (Read success frame) = (\<not> frame_rejected success frame)"
| "valid_read _ = False"

definition reads_in :: "'l event list \<Rightarrow> nat" where
  "reads_in evs = length (filter is_Read evs)"

definition valid_reads :: "'l event list \<Rightarrow> nat" where
  "valid_reads evs = length (filter valid_read evs)"

definition estimator_calls :: "'l event list \<Rightarrow> nat" where
  "estimator_calls evs = length (filter is_Process evs)"

text \<open>The events of start-up and shutdown, which the loop itself never produces.\<close>

fun outside_loop :: "'l event \<Rightarrow> bool" where
  "outside_loop (PoseInit opts) = True"
| "outside_loop (Print s) = True"
| "outside_loop (VideoCapture i api) = True"
| "outside_loop (CapSet p v) = True"
| "outside_loop Release = True"
| "outside_loop DestroyAllWindows = True"
| "outside_loop (SysExit a) = True"
| "outside_loop _ = False"

subsection \<open>Scripted worlds\<close>

text \<open>
  Concrete collaborators to run the script on, in the manner of mocks: the camera
  handle reports \<open>opened\<close> throughout, the \<open>i\<close>-th read (counted from 0) answers
  \<open>reads i\<close>, the estimator always answers \<open>detection\<close>, and every key poll
  answers \<open>key\<close>. The conversion swaps the first and third channel, drawing whitens
  the frame.
\<close>

definition swap_channels :: "frame \<Rightarrow> color_code \<Rightarrow> frame" where
  "swap_channels f c = map (map (\<lambda>(b, g, r). (r, g, b))) f"

definition whiten :: "frame \<Rightarrow> nat \<Rightarrow> (nat \<times> nat) set \<Rightarrow> frame" where
  "whiten f lms conns = map (map (\<lambda>p. (255, 255, 255))) f"

definition scripted_world ::
  "bool \<Rightarrow> (nat \<Rightarrow> bool \<times> frame option) \<Rightarrow> nat option \<Rightarrow> int \<Rightarrow> nat world" where
  "scripted_world opened reads detection key =
     \<lparr>cap_isOpened = (\<lambda>h. opened),
      cap_read = (\<lambda>h. reads (reads_in h)),
      cvtColor = swap_channels,
      pose_process = (\<lambda>h img. detection),
      POSE_CONNECTIONS = {(11, 12)},
      draw_landmarks = whiten,
      waitKey = (\<lambda>h delay. key)\<rparr>"

definition sample_frame :: frame where
  "sample_frame = [[(1, 2, 3)]]"

text \<open>A camera that fails \<open>k\<close> reads and delivers \<open>sample_frame\<close> from then on.\<close>

definition fails_then_delivers :: "nat \<Rightarrow> nat \<Rightarrow> bool \<times> frame option" where
  "fails_then_delivers k i = (if i < k then (False, None) else (True, Some sample_frame))"

text \<open>A camera whose reads report success but carry no frame.\<close>

definition never_delivers :: "nat \<Rightarrow> bool \<times> frame option" where
  "never_delivers i = (True, None)"

section \<open>Properties of the loop body\<close>

lemma process_frame_no_detection:
  assumes "pose_process w (h @ [CvtColor f COLOR_BGR2RGB]) (cvtColor w f COLOR_BGR2RGB) = None"
  shows "process_frame w h f =
    (let img = cvtColor w f COLOR_BGR2RGB;
         shown = [CvtColor f COLOR_BGR2RGB, Process img None, ImShow window_title f];
         key = waitKey w (h @ shown) 1
     in (if key AND 0xFF = 27 then Break else Continue, shown @ [WaitKey 1 key]))"
  using assms by (simp add: process_frame_def Let_def)

lemma process_frame_detection:
  assumes "pose_process w (h @ [CvtColor f COLOR_BGR2RGB]) (cvtColor w f COLOR_BGR2RGB) = Some lms"
  shows "process_frame w h f =
    (let img = cvtColor w f COLOR_BGR2RGB;
         conns = POSE_CONNECTIONS w;
         shown = [CvtColor f COLOR_BGR2RGB, Process img (Some lms), DrawLandmarks f lms conns,
                  ImShow window_title (draw_landmarks w f lms conns)];
         key = waitKey w (h @ shown) 1
     in (if key AND 0xFF = 27 then Break else Continue, shown @ [WaitKey 1 key]))"
  using assms by (simp add: process_frame_def Let_def)

lemma process_frame_shape:
  "\<exists>r rest k. snd (process_frame w h f) =
      CvtColor f COLOR_BGR2RGB # Process (cvtColor w f COLOR_BGR2RGB) r # rest @ [WaitKey 1 k]
    \<and> estimator_calls rest = 0 \<and> reads_in rest = 0 \<and> valid_reads rest = 0
    \<and> (fst (process_frame w h f) = Break \<longleftrightarrow> k AND 0xFF = 27)
    \<and> (fst (process_frame w h f) = Continue \<longleftrightarrow> k AND 0xFF \<noteq> 27)
    \<and> (\<forall>e \<in> set rest. \<not> outside_loop e)"
proof (cases "pose_process w (h @ [CvtColor f COLOR_BGR2RGB]) (cvtColor w f COLOR_BGR2RGB)")
  case None
  show ?thesis
    unfolding process_frame_no_detection [OF None] Let_def
    by (simp add: estimator_calls_def reads_in_def valid_reads_def)
next
  case (Some lms)
  show ?thesis
    unfolding process_frame_detection [OF Some] Let_def
    by (simp add: estimator_calls_def reads_in_def valid_reads_def)
qed

lemma iteration_rejected:
  assumes "cap_read w h = (success, frame)" and "frame_rejected success frame"
  shows "iteration w h = (Continue, [Read success frame])"
  using assms by (simp add: iteration_def)

lemma iteration_accepted:
  assumes "cap_read w h = (success, Some f)" and "\<not> frame_rejected success (Some f)"
  shows "iteration w h =
    (fst (process_frame w (h @ [Read success (Some f)]) f),
     Read success (Some f) # snd (process_frame w (h @ [Read success (Some f)]) f))"
  using assms by (simp add: iteration_def split: prod.splits)


lemma iteration_cases:
  obtains (rejected) success frame where
      "cap_read w h = (success, frame)" "frame_rejected success frame"
      "iteration w h = (Continue, [Read success frame])"
  | (accepted) f r rest k where
      "cap_read w h = (True, Some f)"
      "iteration w h = (if k AND 0xFF = 27 then Break else Continue,
         Read True (Some f) # CvtColor f COLOR_BGR2RGB #
         Process (cvtColor w f COLOR_BGR2RGB) r # rest @ [WaitKey 1 k])"
      "estimator_calls rest = 0" "reads_in rest = 0" "valid_reads rest = 0"
      "\<forall>e \<in> set rest. \<not> outside_loop e"
proof (cases "cap_read w h")
  case (Pair success frame)
  show thesis
  proof (cases "frame_rejected success frame")
    case True
    from rejected [OF Pair True iteration_rejected [OF Pair True]] show thesis .
  next
    case False
    then obtain f where f: "success" "frame = Some f"
      by (auto simp: frame_rejected_def)
    let ?h = "h @ [Read True (Some f)]"
    from process_frame_shape [of w ?h f] obtain r rest k where
      shape: "snd (process_frame w ?h f) =
        CvtColor f COLOR_BGR2RGB # Process (cvtColor w f COLOR_BGR2RGB) r # rest @ [WaitKey 1 k]"
      and rest: "estimator_calls rest = 0" "reads_in rest = 0" "valid_reads rest = 0"
        "\<forall>e \<in> set rest. \<not> outside_loop e"
      and brk: "fst (process_frame w ?h f) = Break \<longleftrightarrow> k AND 0xFF = 27"
      by blast
    have rd: "cap_read w h = (True, Some f)"
      using Pair f by simp
    have nrej: "\<not> frame_rejected True (Some f)"
      by (simp add: frame_rejected_def)
    have "fst (process_frame w ?h f) = (if k AND 0xFF = 27 then Break else Continue)"
      using brk by (cases "fst (process_frame w ?h f)") auto
    with iteration_accepted [OF rd nrej] shape
    have "iteration w h = (if k AND 0xFF = 27 then Break else Continue,
         Read True (Some f) # CvtColor f COLOR_BGR2RGB #
         Process (cvtColor w f COLOR_BGR2RGB) r # rest @ [WaitKey 1 k])"
      by simp
    from accepted [OF rd this rest] show thesis .
  qed
qed

lemma capture_loop_closed:
  "\<not> cap_isOpened w h \<Longrightarrow> capture_loop (Suc n) w h = (ConditionFalse, [IsOpened False])"
  by simp

lemma capture_loop_break:
  "cap_isOpened w h \<Longrightarrow> iteration w (h @ [IsOpened True]) = (Break, evs) \<Longrightarrow>
   capture_loop (Suc n) w h = (BrokeOut, IsOpened True # evs)"
  by simp

lemma capture_loop_continue:
  "cap_isOpened w h \<Longrightarrow> iteration w (h @ [IsOpened True]) = (Continue, evs) \<Longrightarrow>
   capture_loop (Suc n) w h =
     (fst (capture_loop n w (h @ IsOpened True # evs)),
      IsOpened True # evs @ snd (capture_loop n w (h @ IsOpened True # evs)))"
  by (simp split: prod.splits)

lemma estimator_calls_append [simp]:
  "estimator_calls (xs @ ys) = estimator_calls xs + estimator_calls ys"
  by (simp add: estimator_calls_def)

lemma valid_reads_append [simp]:
  "valid_reads (xs @ ys) = valid_reads xs + valid_reads ys"
  by (simp add: valid_reads_def)

lemma reads_in_append [simp]:
  "reads_in (xs @ ys) = reads_in xs + reads_in ys"
  by (simp add: reads_in_def)

lemma iteration_counts:
  "estimator_calls (snd (iteration w h)) = valid_reads (snd (iteration w h))"
proof (cases rule: iteration_cases [of w h])
  case (rejected success frame)
  then show ?thesis by (simp add: estimator_calls_def valid_reads_def)
next
  case (accepted f r rest k)
  then show ?thesis
    by (simp add: estimator_calls_def valid_reads_def frame_rejected_def)
qed

lemma capture_loop_counts:
  "estimator_calls (snd (capture_loop n w h)) = valid_reads (snd (capture_loop n w h))"
proof (induction n arbitrary: h)
  case 0
  show ?case by (simp add: estimator_calls_def valid_reads_def)
next
  case (Suc n)
  show ?case
  proof (cases "cap_isOpened w h")
    case False
    then show ?thesis by (simp add: estimator_calls_def valid_reads_def)
  next
    case True
    obtain c evs where it: "iteration w (h @ [IsOpened True]) = (c, evs)"
      by (cases "iteration w (h @ [IsOpened True])")
    have cnt: "estimator_calls evs = valid_reads evs"
      using iteration_counts [of w "h @ [IsOpened True]"] it by simp
    have hd: "estimator_calls (IsOpened True # xs) = estimator_calls xs"
             "valid_reads (IsOpened True # xs) = valid_reads xs" for xs :: "'a event list"
      by (simp_all add: estimator_calls_def valid_reads_def)
    show ?thesis
    proof (cases c)
      case Break
      with True it cnt show ?thesis
        by (simp add: hd)
    next
      case Continue
      with capture_loop_continue [OF True] it
      have "snd (capture_loop (Suc n) w h) =
          IsOpened True # evs @ snd (capture_loop n w (h @ IsOpened True # evs))"
        by simp
      with cnt Suc.IH [of "h @ IsOpened True # evs"] show ?thesis
        by (simp add: hd)
    qed
  qed
qed

section \<open>Properties of the loop\<close>

lemma iteration_inside: "\<forall>e \<in> set (snd (iteration w h)). \<not> outside_loop e"
proof (cases rule: iteration_cases [of w h])
  case (rejected success frame)
  then show ?thesis by simp
next
  case (accepted f r rest k)
  then show ?thesis by simp
qed

lemma capture_loop_inside: "\<forall>e \<in> set (snd (capture_loop n w h)). \<not> outside_loop e"
proof (induction n arbitrary: h)
  case 0
  show ?case by simp
next
  case (Suc n)
  obtain c evs where it: "iteration w (h @ [IsOpened True]) = (c, evs)"
    by (cases "iteration w (h @ [IsOpened True])")
  have evs: "\<forall>e \<in> set evs. \<not> outside_loop e"
    using iteration_inside [of w "h @ [IsOpened True]"] it by simp
  show ?case
  proof (cases "cap_isOpened w h")
    case False
    then show ?thesis by simp
  next
    case True
    show ?thesis
    proof (cases c)
      case Break
      with True it evs show ?thesis by simp
    next
      case Continue
      with capture_loop_continue [OF True] it
      have "snd (capture_loop (Suc n) w h) =
          IsOpened True # evs @ snd (capture_loop n w (h @ IsOpened True # evs))"
        by simp
      with evs Suc.IH [of "h @ IsOpened True # evs"] show ?thesis
        by auto
    qed
  qed
qed

lemma iteration_break:
  assumes "iteration w h = (Break, evs)"
  shows "\<exists>pre k. evs = pre @ [WaitKey 1 k] \<and> k AND 0xFF = 27"
proof (cases rule: iteration_cases [of w h])
  case (rejected success frame)
  with assms show ?thesis by simp
next
  case (accepted f r rest k)
  with assms have k: "k AND 0xFF = 27"
    by (auto split: if_splits)
  from accepted assms have "evs = (Read True (Some f) # CvtColor f COLOR_BGR2RGB #
         Process (cvtColor w f COLOR_BGR2RGB) r # rest) @ [WaitKey 1 k]"
    by simp
  with k show ?thesis by blast
qed

lemma capture_loop_broke_out:
  "fst (capture_loop n w h) = BrokeOut \<Longrightarrow>
   \<exists>pre k. snd (capture_loop n w h) = pre @ [WaitKey 1 k] \<and> k AND 0xFF = 27"
proof (induction n arbitrary: h)
  case 0
  then show ?case by simp
next
  case (Suc n)
  obtain c evs where it: "iteration w (h @ [IsOpened True]) = (c, evs)"
    by (cases "iteration w (h @ [IsOpened True])")
  show ?case
  proof (cases "cap_isOpened w h")
    case False
    with Suc.prems show ?thesis by simp
  next
    case True
    show ?thesis
    proof (cases c)
      case Break
      with iteration_break it obtain pre k where
        "evs = pre @ [WaitKey 1 k]" "k AND 0xFF = 27"
        by blast
      moreover have "capture_loop (Suc n) w h = (BrokeOut, IsOpened True # evs)"
        using capture_loop_break [OF True] it Break by simp
      ultimately have "snd (capture_loop (Suc n) w h) = (IsOpened True # pre) @ [WaitKey 1 k]
          \<and> k AND 0xFF = 27"
        by simp
      then show ?thesis by blast
    next
      case Continue
      let ?h = "h @ IsOpened True # evs"
      from capture_loop_continue [OF True] it Continue
      have step: "capture_loop (Suc n) w h =
          (fst (capture_loop n w ?h), IsOpened True # evs @ snd (capture_loop n w ?h))"
        by simp
      with Suc.prems have "fst (capture_loop n w ?h) = BrokeOut"
        by simp
      from Suc.IH [OF this] obtain pre k where
        "snd (capture_loop n w ?h) = pre @ [WaitKey 1 k]" "k AND 0xFF = 27"
        by blast
      with step have "snd (capture_loop (Suc n) w h) = (IsOpened True # evs @ pre) @ [WaitKey 1 k]
          \<and> k AND 0xFF = 27"
        by simp
      then show ?thesis by blast
    qed
  qed
qed

lemma iteration_valid_read:
  "valid_reads (snd (iteration w h)) = 0 \<Longrightarrow>
   \<exists>success frame. iteration w h = (Continue, [Read success frame]) \<and> frame_rejected success frame"
proof (cases rule: iteration_cases [of w h])
  case (rejected success frame)
  then show ?thesis by simp
next
  case (accepted f r rest k)
  moreover assume "valid_reads (snd (iteration w h)) = 0"
  ultimately show ?thesis
    by (simp add: valid_reads_def frame_rejected_def)
qed

lemma capture_loop_starved:
  "valid_reads (snd (capture_loop n w h)) = 0 \<Longrightarrow>
   fst (capture_loop n w h) \<noteq> BrokeOut \<and>
   list_all (\<lambda>e. \<not> is_Process e \<and> \<not> is_ImShow e \<and> \<not> is_WaitKey e) (snd (capture_loop n w h))"
proof (induction n arbitrary: h)
  case 0
  then show ?case by simp
next
  case (Suc n)
  obtain c evs where it: "iteration w (h @ [IsOpened True]) = (c, evs)"
    by (cases "iteration w (h @ [IsOpened True])")
  show ?case
  proof (cases "cap_isOpened w h")
    case False
    then show ?thesis by simp
  next
    case True
    have hd: "valid_reads (IsOpened True # xs) = valid_reads xs" for xs :: "'a event list"
      by (simp add: valid_reads_def)
    have sub: "valid_reads evs \<le> valid_reads (snd (capture_loop (Suc n) w h))"
      using True it by (cases c) (simp_all add: hd split: prod.splits)
    with Suc.prems have "valid_reads (snd (iteration w (h @ [IsOpened True]))) = 0"
      using it by simp
    from iteration_valid_read [OF this] it obtain success frame where
      c: "c = Continue" and evs: "evs = [Read success frame]"
      by auto
    let ?h = "h @ IsOpened True # evs"
    from capture_loop_continue [OF True] it c
    have step: "capture_loop (Suc n) w h =
        (fst (capture_loop n w ?h), IsOpened True # evs @ snd (capture_loop n w ?h))"
      by simp
    with Suc.prems have "valid_reads (snd (capture_loop n w ?h)) = 0"
      by (simp add: hd)
    from Suc.IH [OF this] step evs show ?thesis
      by simp
  qed
qed

lemma capture_loop_skips:
  assumes opened: "\<forall>h'. cap_isOpened w h'"
    and rej: "\<forall>h'. reads_in h' < N \<longrightarrow> frame_rejected (fst (cap_read w h')) (snd (cap_read w h'))"
  shows "reads_in h + k = N \<Longrightarrow>
    \<exists>sk. capture_loop (k + m) w h =
            (fst (capture_loop m w (h @ sk)), sk @ snd (capture_loop m w (h @ sk)))
       \<and> reads_in sk = k \<and> estimator_calls sk = 0"
proof (induction k arbitrary: h)
  case 0
  have "capture_loop (0 + m) w h =
      (fst (capture_loop m w (h @ [])), [] @ snd (capture_loop m w (h @ [])))
      \<and> reads_in ([] :: 'a event list) = 0 \<and> estimator_calls ([] :: 'a event list) = 0"
    by (simp add: reads_in_def estimator_calls_def)
  then show ?case by blast
next
  case (Suc k)
  let ?h1 = "h @ [IsOpened True]"
  obtain success frame where rd: "cap_read w ?h1 = (success, frame)"
    by (cases "cap_read w ?h1")
  have "reads_in ?h1 < N"
    using Suc.prems by (simp add: reads_in_def)
  with rej rd have "frame_rejected success frame"
    by fastforce
  from iteration_rejected [OF rd this]
  have it: "iteration w ?h1 = (Continue, [Read success frame])" .
  let ?h2 = "h @ [IsOpened True, Read success frame]"
  have op: "cap_isOpened w h"
    using opened by simp
  from capture_loop_continue [OF op it, of "k + m"]
  have step: "capture_loop (Suc k + m) w h =
      (fst (capture_loop (k + m) w ?h2),
       [IsOpened True, Read success frame] @ snd (capture_loop (k + m) w ?h2))"
    by simp
  have "reads_in ?h2 + k = N"
    using Suc.prems by (simp add: reads_in_def)
  from Suc.IH [OF this] obtain sk where
    sk: "capture_loop (k + m) w ?h2 =
            (fst (capture_loop m w (?h2 @ sk)), sk @ snd (capture_loop m w (?h2 @ sk)))"
      "reads_in sk = k" "estimator_calls sk = 0"
    by blast
  let ?sk = "[IsOpened True, Read success frame] @ sk"
  have "capture_loop (Suc k + m) w h =
            (fst (capture_loop m w (h @ ?sk)), ?sk @ snd (capture_loop m w (h @ ?sk)))
       \<and> reads_in ?sk = Suc k \<and> estimator_calls ?sk = 0"
    using step sk by (simp add: reads_in_def estimator_calls_def)
  then show ?case by blast
qed

section \<open>Properties of the script\<close>

lemma pose_detection_open_failed:
  "\<not> cap_isOpened w startup \<Longrightarrow>
   pose_detection fuel w =
     Exited 0 (startup @ [IsOpened False, Print msg_open_error, SysExit None])"
  by (simp add: pose_detection_def)

lemma pose_detection_loop_ended:
  "cap_isOpened w startup \<Longrightarrow> capture_loop fuel w configured = (e, evs) \<Longrightarrow> e \<noteq> OutOfFuel \<Longrightarrow>
   pose_detection fuel w = Exited 0 (configured @ evs @ [Release, DestroyAllWindows])"
  by (cases e) (simp_all add: pose_detection_def)

lemma pose_detection_unfinished:
  "cap_isOpened w startup \<Longrightarrow> capture_loop fuel w configured = (OutOfFuel, evs) \<Longrightarrow>
   pose_detection fuel w = Unfinished (configured @ evs)"
  by (simp add: pose_detection_def)

text \<open>
  On integers, masking with \<open>0xFF\<close> keeps the remainder modulo 256; for a negative
  key such as \<open>-1\<close> (no key pressed) that is 255.
\<close>

lemma low_byte_eq_mod: "(k :: int) AND 0xFF = k mod 256"
proof -
  have "k AND mask 8 = k mod 2 ^ 8"
    by (simp only: take_bit_eq_mod flip: take_bit_eq_mask)
  then show ?thesis
    by (simp add: mask_eq_exp_minus_1)
qed

text \<open>
  A pass that ends in a key poll breaks or continues as the masked key says.
\<close>

lemma iteration_ends_in_key_poll:
  assumes "iteration w h = (c, pre @ [WaitKey d k])"
  shows "c = (if k AND 0xFF = 27 then Break else Continue)"
proof (cases rule: iteration_cases [of w h])
  case (rejected success frame)
  with assms have "[Read success frame] = pre @ [WaitKey d k]"
    by simp
  then have "last [Read success frame] = last (pre @ [WaitKey d k])"
    by (rule arg_cong)
  then show ?thesis by simp
next
  case (accepted f r rest k')
  let ?pre = "Read True (Some f) # CvtColor f COLOR_BGR2RGB #
         Process (cvtColor w f COLOR_BGR2RGB) r # rest"
  from accepted(2) assms
  have c: "c = (if k' AND 0xFF = 27 then Break else Continue)"
    and "?pre @ [WaitKey 1 k'] = pre @ [WaitKey d k]"
    by simp_all
  then have "last (?pre @ [WaitKey 1 k']) = last (pre @ [WaitKey d k])"
    by (simp only:)
  then have "k' = k"
    by (simp only: last_snoc event.inject)
  with c show ?thesis by simp
qed

text \<open>
  What the loop does after a pass that reached the key poll: it is left in that pass when
  the masked key is 27, and goes on with the next test of its condition otherwise.
\<close>

lemma capture_loop_after_key_poll:
  assumes "cap_isOpened w h"
    and "iteration w (h @ [IsOpened True]) = (c, pre @ [WaitKey d k])"
  shows "(k AND 0xFF = 27 \<longleftrightarrow> k mod 256 = 27)
    \<and> (k AND 0xFF = 27 \<longrightarrow>
         c = Break \<and>
         capture_loop (Suc n) w h = (BrokeOut, IsOpened True # pre @ [WaitKey d k]))
    \<and> (k AND 0xFF \<noteq> 27 \<longrightarrow>
         c = Continue \<and>
         capture_loop (Suc n) w h =
           (fst (capture_loop n w (h @ IsOpened True # pre @ [WaitKey d k])),
            IsOpened True # pre @ [WaitKey d k] @
            snd (capture_loop n w (h @ IsOpened True # pre @ [WaitKey d k]))))"
proof -
  from iteration_ends_in_key_poll [OF assms(2)]
  have c: "c = (if k AND 0xFF = 27 then Break else Continue)" .
  have "k AND 0xFF = 27 \<longleftrightarrow> k mod 256 = 27"
    by (simp only: low_byte_eq_mod)
  moreover have "capture_loop (Suc n) w h = (BrokeOut, IsOpened True # pre @ [WaitKey d k])"
    if "k AND 0xFF = 27"
    using capture_loop_break [OF assms(1), of "pre @ [WaitKey d k]" n] assms(2) c that
    by simp
  moreover have "capture_loop (Suc n) w h =
           (fst (capture_loop n w (h @ IsOpened True # pre @ [WaitKey d k])),
            IsOpened True # pre @ [WaitKey d k] @
            snd (capture_loop n w (h @ IsOpened True # pre @ [WaitKey d k])))"
    if "k AND 0xFF \<noteq> 27"
    using capture_loop_continue [OF assms(1), of "pre @ [WaitKey d k]" n] assms(2) c that
    by simp
  ultimately show ?thesis
    using c by simp
qed

text \<open>
  \<open>cv2.waitKey\<close> answers \<open>-1\<close> when no key was pressed within the delay, and the
  key's code reduced to its low byte otherwise. On these values the mask of line 53
  singles out 27 alone.
\<close>

lemma masked_key_is_escape:
  assumes "- 1 \<le> k" and "k \<le> 255"
  shows "k AND 0xFF = 27 \<longleftrightarrow> k = (27 :: int)"
proof (cases "k = - 1")
  case True
  then show ?thesis by simp
next
  case False
  with assms have "0 \<le> k" and "k < 256"
    by simp_all
  then have "k mod 256 = k"
    by simp
  then show ?thesis
    by (simp only: low_byte_eq_mod)
qed

text \<open>
  The equations that run the script on a scripted world.
\<close>

lemmas run_simps =
  pose_detection_def startup_def configured_def iteration_def process_frame_def
  frame_rejected_def scripted_world_def fails_then_delivers_def never_delivers_def
  reads_in_def valid_reads_def estimator_calls_def sample_frame_def swap_channels_def
  whiten_def

section \<open>The claims\<close>

text \<open>
  C1. Whatever the camera answers, one pass through the loop body calls the estimator
  exactly when the read succeeded with a frame: a rejected read makes the pass end after
  the read alone, an accepted one is followed by the conversion and one estimator call on
  the converted frame. Over any run of the loop the estimator calls are as many as the
  accepted reads. With the camera open, 100 rejected reads and then a delivered frame,
  101 passes call the estimator once, right after the 101st read.
\<close>

theorem estimator_called_exactly_on_valid_frames:
  "(\<forall>success frame. cap_read w h = (success, frame) \<longrightarrow>
      (if frame_rejected success frame
       then iteration w h = (Continue, [Read success frame])
       else \<exists>f r rest. frame = Some f \<and>
              snd (iteration w h) =
                Read success frame # CvtColor f COLOR_BGR2RGB #
                Process (cvtColor w f COLOR_BGR2RGB) r # rest \<and>
              estimator_calls rest = 0))
   \<and> estimator_calls (snd (capture_loop n w h)) = valid_reads (snd (capture_loop n w h))
   \<and> ((\<forall>h'. cap_isOpened w h') \<and>
        (\<forall>h'. reads_in h' < 100 \<longrightarrow>
               frame_rejected (fst (cap_read w h')) (snd (cap_read w h'))) \<and>
        (\<forall>h'. reads_in h' = 100 \<longrightarrow> cap_read w h' = (True, Some f0)) \<and>
        reads_in h = 0
        \<longrightarrow> estimator_calls (snd (capture_loop 101 w h)) = 1 \<and>
            (\<exists>pre r post. snd (capture_loop 101 w h) =
                 pre @ Read True (Some f0) # CvtColor f0 COLOR_BGR2RGB #
                 Process (cvtColor w f0 COLOR_BGR2RGB) r # post \<and>
               reads_in pre = 100 \<and> estimator_calls pre = 0 \<and> estimator_calls post = 0))"
  (is "?each \<and> ?count \<and> ?scenario")
proof (intro conjI)
  show ?each
  proof (intro allI impI)
    fix success frame
    assume rd: "cap_read w h = (success, frame)"
    show "if frame_rejected success frame
       then iteration w h = (Continue, [Read success frame])
       else \<exists>f r rest. frame = Some f \<and>
              snd (iteration w h) =
                Read success frame # CvtColor f COLOR_BGR2RGB #
                Process (cvtColor w f COLOR_BGR2RGB) r # rest \<and>
              estimator_calls rest = 0"
    proof (cases rule: iteration_cases [of w h])
      case (rejected s fr)
      with rd show ?thesis by simp
    next
      case (accepted f r rest k)
      with rd have "success" "frame = Some f"
        by simp_all
      moreover have "estimator_calls (rest @ [WaitKey 1 k]) = 0"
        using accepted(3) by (simp add: estimator_calls_def)
      ultimately show ?thesis
        using accepted(2) by (simp add: frame_rejected_def)
    qed
  qed
next
  show ?count
    by (rule capture_loop_counts)
next
  show ?scenario
  proof (intro impI, elim conjE)
    assume opened: "\<forall>h'. cap_isOpened w h'"
      and rej: "\<forall>h'. reads_in h' < 100 \<longrightarrow>
               frame_rejected (fst (cap_read w h')) (snd (cap_read w h'))"
      and ok: "\<forall>h'. reads_in h' = 100 \<longrightarrow> cap_read w h' = (True, Some f0)"
      and h: "reads_in h = 0"
    from h have "reads_in h + 100 = 100"
      by simp
    from capture_loop_skips [OF opened rej this, of 1] obtain sk where
      sk: "capture_loop 101 w h =
            (fst (capture_loop 1 w (h @ sk)), sk @ snd (capture_loop 1 w (h @ sk)))"
        "reads_in sk = 100" "estimator_calls sk = 0"
      by auto
    let ?h = "h @ sk"
    have rd: "cap_read w (?h @ [IsOpened True]) = (True, Some f0)"
      using ok h sk(2) by (simp add: reads_in_def)
    have op: "cap_isOpened w ?h"
      using opened by simp
    obtain r rest k where
      it: "snd (iteration w (?h @ [IsOpened True])) =
         Read True (Some f0) # CvtColor f0 COLOR_BGR2RGB #
         Process (cvtColor w f0 COLOR_BGR2RGB) r # rest @ [WaitKey 1 k]"
      and rest: "estimator_calls rest = 0"
    proof (cases rule: iteration_cases [of w "?h @ [IsOpened True]"])
      case (rejected success frame)
      with rd show ?thesis by (simp add: frame_rejected_def)
    next
      case (accepted f r rest k)
      with rd that show ?thesis by simp
    qed
    have one: "snd (capture_loop 1 w ?h) = IsOpened True # snd (iteration w (?h @ [IsOpened True]))"
      using op by (simp add: numeral_eq_Suc split: prod.splits control.splits)
    let ?pre = "sk @ [IsOpened True]"
    let ?post = "rest @ [WaitKey 1 k]"
    have shape: "snd (capture_loop 101 w h) =
        ?pre @ Read True (Some f0) # CvtColor f0 COLOR_BGR2RGB #
        Process (cvtColor w f0 COLOR_BGR2RGB) r # ?post"
      using sk(1) one it by simp
    have pre: "reads_in ?pre = 100" "estimator_calls ?pre = 0"
      using sk(2,3) by (simp_all add: reads_in_def estimator_calls_def)
    have post: "estimator_calls ?post = 0"
      using rest by (simp add: estimator_calls_def)
    have "estimator_calls (snd (capture_loop 101 w h)) = 1"
      unfolding shape using pre(2) post by (simp add: estimator_calls_def)
    with shape pre post
    show "estimator_calls (snd (capture_loop 101 w h)) = 1 \<and>
            (\<exists>pre r post. snd (capture_loop 101 w h) =
                 pre @ Read True (Some f0) # CvtColor f0 COLOR_BGR2RGB #
                 Process (cvtColor w f0 COLOR_BGR2RGB) r # post \<and>
               reads_in pre = 100 \<and> estimator_calls pre = 0 \<and> estimator_calls post = 0)"
      by blast
  qed
qed

text \<open>The scenario of C1 on a scripted camera that fails 100 reads.\<close>

theorem estimator_called_exactly_on_valid_frames_witness:
  "iteration (scripted_world True (fails_then_delivers 100) (Some 7) (- 1)) [] =
     (Continue, [Read False None])
   \<and> estimator_calls
       (snd (capture_loop 101 (scripted_world True (fails_then_delivers 100) (Some 7) (- 1)) [])) = 1
   \<and> valid_reads
       (snd (capture_loop 101 (scripted_world True (fails_then_delivers 100) (Some 7) (- 1)) [])) = 1
   \<and> (\<exists>pre r post.
        snd (capture_loop 101 (scripted_world True (fails_then_delivers 100) (Some 7) (- 1)) []) =
          pre @ Read True (Some sample_frame) # CvtColor sample_frame COLOR_BGR2RGB #
          Process (swap_channels sample_frame COLOR_BGR2RGB) r # post \<and>
        reads_in pre = 100 \<and> estimator_calls pre = 0 \<and> estimator_calls post = 0)"
proof -
  let ?w = "scripted_world True (fails_then_delivers 100) (Some 7) (- 1)"
  have rd: "cap_read ?w [] = (False, None)"
    by (simp add: scripted_world_def fails_then_delivers_def reads_in_def)
  have rej: "frame_rejected False None"
    by (simp add: frame_rejected_def)
  have hyps: "(\<forall>h'. cap_isOpened ?w h') \<and>
        (\<forall>h'. reads_in h' < 100 \<longrightarrow>
               frame_rejected (fst (cap_read ?w h')) (snd (cap_read ?w h'))) \<and>
        (\<forall>h'. reads_in h' = 100 \<longrightarrow> cap_read ?w h' = (True, Some sample_frame)) \<and>
        reads_in ([] :: nat event list) = 0"
    by (simp add: scripted_world_def fails_then_delivers_def frame_rejected_def reads_in_def)
  have cvt: "cvtColor ?w = swap_channels"
    by (simp add: scripted_world_def)
  note inst = estimator_called_exactly_on_valid_frames [of ?w "[]" 101 sample_frame]
  from inst have "\<forall>success frame. cap_read ?w [] = (success, frame) \<longrightarrow>
      (if frame_rejected success frame
       then iteration ?w [] = (Continue, [Read success frame])
       else \<exists>f r rest. frame = Some f \<and>
              snd (iteration ?w []) =
                Read success frame # CvtColor f COLOR_BGR2RGB #
                Process (cvtColor ?w f COLOR_BGR2RGB) r # rest \<and>
              estimator_calls rest = 0)"
    by (rule conjunct1)
  with rd have "if frame_rejected False None
       then iteration ?w [] = (Continue, [Read False None])
       else \<exists>f r rest. None = Some f \<and>
              snd (iteration ?w []) =
                Read False None # CvtColor f COLOR_BGR2RGB #
                Process (cvtColor ?w f COLOR_BGR2RGB) r # rest \<and>
              estimator_calls rest = 0"
    by blast
  with rej have a: "iteration ?w [] = (Continue, [Read False None])"
    by simp
  from inst hyps have b: "estimator_calls (snd (capture_loop 101 ?w [])) = 1"
    by blast
  from inst b have c: "valid_reads (snd (capture_loop 101 ?w [])) = 1"
    by simp
  from inst hyps have d: "\<exists>pre r post. snd (capture_loop 101 ?w []) =
          pre @ Read True (Some sample_frame) # CvtColor sample_frame COLOR_BGR2RGB #
          Process (cvtColor ?w sample_frame COLOR_BGR2RGB) r # post \<and>
        reads_in pre = 100 \<and> estimator_calls pre = 0 \<and> estimator_calls post = 0"
    by blast
  from a b c d show ?thesis
    unfolding cvt by blast
qed

text \<open>
  C2, as stated, fails on the path where the camera does not open: \<open>sys.exit()\<close> is
  called without an argument, so the exit status there is 0, not a non-zero one.
\<close>

theorem open_failure_exit_status_counterexample:
  "\<not> cap_isOpened (scripted_world False never_delivers None (- 1)) startup
   \<and> exit_status (pose_detection 0 (scripted_world False never_delivers None (- 1))) = Some 0"
  by (simp add: run_simps)

text \<open>
  C2, amended. When the camera does not open, the script prints the diagnostic message
  and then leaves through \<open>sys.exit()\<close> with no argument, which is exit status 0; when
  the loop is left through the Escape test, the script runs to its end and the exit status
  is 0 as well.
\<close>

theorem exit_status_zero_on_both_paths:
  "(\<not> cap_isOpened w startup \<longrightarrow>
      pose_detection fuel w =
        Exited (sys_exit_status None)
          (startup @ [IsOpened False, Print msg_open_error, SysExit None]) \<and>
      exit_status (pose_detection fuel w) = Some 0)
   \<and> (cap_isOpened w startup \<and> fst (capture_loop fuel w configured) = BrokeOut \<longrightarrow>
      exit_status (pose_detection fuel w) = Some 0)"
proof (intro conjI impI)
  assume "\<not> cap_isOpened w startup"
  from pose_detection_open_failed [OF this, of fuel]
  show "pose_detection fuel w =
        Exited (sys_exit_status None)
          (startup @ [IsOpened False, Print msg_open_error, SysExit None])"
    and "exit_status (pose_detection fuel w) = Some 0"
    by simp_all
next
  assume a: "cap_isOpened w startup \<and> fst (capture_loop fuel w configured) = BrokeOut"
  obtain e evs where l: "capture_loop fuel w configured = (e, evs)"
    by (cases "capture_loop fuel w configured")
  with a have "e \<noteq> OutOfFuel" by simp
  from pose_detection_loop_ended [OF _ l this] a
  show "exit_status (pose_detection fuel w) = Some 0"
    by simp
qed

text \<open>
  Both paths of C2 on scripted worlds: a camera that does not open, and one that
  delivers a frame while Escape is held.
\<close>

theorem exit_status_zero_on_both_paths_witness:
  "pose_detection 5 (scripted_world False never_delivers None (- 1)) =
     Exited 0 (startup @ [IsOpened False, Print msg_open_error, SysExit None])
   \<and> exit_status (pose_detection 5 (scripted_world True (fails_then_delivers 1) None 27)) = Some 0"
proof -
  let ?closed = "scripted_world False never_delivers None (- 1)"
  let ?esc = "scripted_world True (fails_then_delivers 1) None 27"
  have "\<not> cap_isOpened ?closed startup"
    by (simp add: scripted_world_def)
  with exit_status_zero_on_both_paths [of ?closed 5]
  have a: "pose_detection 5 ?closed =
     Exited 0 (startup @ [IsOpened False, Print msg_open_error, SysExit None])"
    by simp
  have "cap_isOpened ?esc startup"
    by (simp add: scripted_world_def)
  moreover have "fst (capture_loop 5 ?esc configured) = BrokeOut"
    by (simp add: run_simps numeral_eq_Suc)
  ultimately have b: "exit_status (pose_detection 5 ?esc) = Some 0"
    using exit_status_zero_on_both_paths [of ?esc 5] by simp
  from a b show ?thesis by simp
qed

text \<open>
  C3. At the key poll, whose answer is \<open>-1\<close> for no key or a key code from 0 to 255,
  the Escape key (code 27) and only it ends the loop, and does so within the same pass:
  the loop's events stop at that poll. For every other answer the pass ends normally
  and the loop goes on with the next test of its condition.
\<close>

theorem escape_key_alone_exits_loop:
  assumes "cap_isOpened w h"
    and "iteration w (h @ [IsOpened True]) = (c, pre @ [WaitKey d k])"
    and "- 1 \<le> k" and "k \<le> 255"
  shows "(c = Break \<longleftrightarrow> k = 27)
    \<and> (k = 27 \<longrightarrow>
         capture_loop (Suc n) w h = (BrokeOut, IsOpened True # pre @ [WaitKey d k]))
    \<and> (k \<noteq> 27 \<longrightarrow>
         c = Continue \<and>
         capture_loop (Suc n) w h =
           (fst (capture_loop n w (h @ IsOpened True # pre @ [WaitKey d k])),
            IsOpened True # pre @ [WaitKey d k] @
            snd (capture_loop n w (h @ IsOpened True # pre @ [WaitKey d k]))))"
proof -
  have esc: "k AND 0xFF = 27 \<longleftrightarrow> k = 27"
    by (rule masked_key_is_escape [OF assms(3,4)])
  from iteration_ends_in_key_poll [OF assms(2)]
  have c: "c = (if k = 27 then Break else Continue)"
    by (simp only: esc)
  note after_poll = capture_loop_after_key_poll [OF assms(1,2), of n]
  from after_poll esc
  have left: "k = 27 \<longrightarrow>
         capture_loop (Suc n) w h = (BrokeOut, IsOpened True # pre @ [WaitKey d k])"
    by blast
  from after_poll esc
  have goes_on: "k \<noteq> 27 \<longrightarrow>
         capture_loop (Suc n) w h =
           (fst (capture_loop n w (h @ IsOpened True # pre @ [WaitKey d k])),
            IsOpened True # pre @ [WaitKey d k] @
            snd (capture_loop n w (h @ IsOpened True # pre @ [WaitKey d k])))"
    by blast
  from c left goes_on show ?thesis
    by simp
qed

text \<open>
  C3 on three scripted worlds: Escape (27) leaves the loop in the first pass although
  fuel remains; the letter q (113) and no key (\<open>-1\<close>) let it go on until the fuel
  is spent.
\<close>

theorem escape_key_alone_exits_loop_witness:
  "capture_loop 3 (scripted_world True (fails_then_delivers 0) None 27) [] =
     (BrokeOut,
      [IsOpened True, Read True (Some sample_frame), CvtColor sample_frame COLOR_BGR2RGB,
       Process (swap_channels sample_frame COLOR_BGR2RGB) None,
       ImShow window_title sample_frame, WaitKey 1 27])
   \<and> capture_loop 1 (scripted_world True (fails_then_delivers 0) None 113) [] =
     (OutOfFuel,
      [IsOpened True, Read True (Some sample_frame), CvtColor sample_frame COLOR_BGR2RGB,
       Process (swap_channels sample_frame COLOR_BGR2RGB) None,
       ImShow window_title sample_frame, WaitKey 1 113])
   \<and> capture_loop 1 (scripted_world True (fails_then_delivers 0) None (- 1)) [] =
     (OutOfFuel,
      [IsOpened True, Read True (Some sample_frame), CvtColor sample_frame COLOR_BGR2RGB,
       Process (swap_channels sample_frame COLOR_BGR2RGB) None,
       ImShow window_title sample_frame, WaitKey 1 (- 1)])"
proof -
  let ?esc = "scripted_world True (fails_then_delivers 0) None 27"
  let ?q = "scripted_world True (fails_then_delivers 0) None 113"
  let ?none = "scripted_world True (fails_then_delivers 0) None (- 1)"
  let ?pre = "[Read True (Some sample_frame), CvtColor sample_frame COLOR_BGR2RGB,
       Process (swap_channels sample_frame COLOR_BGR2RGB) None,
       ImShow window_title sample_frame]"
  have "cap_isOpened ?esc []"
    by (simp add: scripted_world_def)
  moreover have "iteration ?esc ([] @ [IsOpened True]) = (Break, ?pre @ [WaitKey 1 27])"
    by (simp add: run_simps)
  ultimately have esc: "capture_loop 3 ?esc [] = (BrokeOut, IsOpened True # ?pre @ [WaitKey 1 27])"
    using escape_key_alone_exits_loop [of ?esc "[]" Break ?pre 1 27 2]
    by (simp add: numeral_eq_Suc)
  have "cap_isOpened ?q []"
    by (simp add: scripted_world_def)
  moreover have "iteration ?q ([] @ [IsOpened True]) = (Continue, ?pre @ [WaitKey 1 113])"
    by (simp add: run_simps)
  ultimately have q: "capture_loop 1 ?q [] =
      (OutOfFuel, IsOpened True # ?pre @ [WaitKey 1 113])"
    using escape_key_alone_exits_loop [of ?q "[]" Continue ?pre 1 113 0]
    by simp
  have "cap_isOpened ?none []"
    by (simp add: scripted_world_def)
  moreover have "iteration ?none ([] @ [IsOpened True]) = (Continue, ?pre @ [WaitKey 1 (- 1)])"
    by (simp add: run_simps)
  ultimately have none: "capture_loop 1 ?none [] =
      (OutOfFuel, IsOpened True # ?pre @ [WaitKey 1 (- 1)])"
    using escape_key_alone_exits_loop [of ?none "[]" Continue ?pre 1 "- 1" 0]
    by simp
  from esc q none show ?thesis by simp
qed

text \<open>
  C4. In a pass where the estimator reports no landmarks, nothing is drawn and the
  frame handed to \<open>cv2.imshow\<close> is the frame that \<open>cap.read\<close> returned: the
  conversion's result lives in \<open>img_rgb\<close> and only goes to the estimator.
\<close>

theorem no_detection_shows_frame_as_read:
  assumes "cap_read w h = (True, Some f)"
    and "pose_process w (h @ [Read True (Some f), CvtColor f COLOR_BGR2RGB])
           (cvtColor w f COLOR_BGR2RGB) = None"
  shows "\<exists>k. snd (iteration w h) =
      [Read True (Some f), CvtColor f COLOR_BGR2RGB,
       Process (cvtColor w f COLOR_BGR2RGB) None,
       ImShow window_title f, WaitKey 1 k]"
proof -
  have "\<not> frame_rejected True (Some f)"
    by (simp add: frame_rejected_def)
  from iteration_accepted [OF assms(1) this]
  have "snd (iteration w h) =
      Read True (Some f) # snd (process_frame w (h @ [Read True (Some f)]) f)"
    by simp
  moreover from assms(2)
  have "pose_process w ((h @ [Read True (Some f)]) @ [CvtColor f COLOR_BGR2RGB])
           (cvtColor w f COLOR_BGR2RGB) = None"
    by simp
  note process_frame_no_detection [OF this]
  ultimately show ?thesis
    by (simp add: Let_def)
qed

text \<open>
  C4 on a scripted world whose conversion does change the pixels: the estimator sees
  the swapped channels, the window shows the pixels as read.
\<close>

theorem no_detection_shows_frame_as_read_witness:
  "snd (iteration (scripted_world True (fails_then_delivers 0) None (- 1)) []) =
      [Read True (Some sample_frame), CvtColor sample_frame COLOR_BGR2RGB,
       Process [[(3, 2, 1)]] None,
       ImShow window_title [[(1, 2, 3)]], WaitKey 1 (- 1)]"
proof -
  let ?w = "scripted_world True (fails_then_delivers 0) None (- 1)"
  have "cap_read ?w [] = (True, Some sample_frame)"
    by (simp add: run_simps)
  moreover have "pose_process ?w ([] @ [Read True (Some sample_frame),
       CvtColor sample_frame COLOR_BGR2RGB]) (cvtColor ?w sample_frame COLOR_BGR2RGB) = None"
    by (simp add: scripted_world_def)
  ultimately obtain k where k: "snd (iteration ?w []) =
      [Read True (Some sample_frame), CvtColor sample_frame COLOR_BGR2RGB,
       Process (cvtColor ?w sample_frame COLOR_BGR2RGB) None,
       ImShow window_title sample_frame, WaitKey 1 k]"
    using no_detection_shows_frame_as_read [of ?w "[]" sample_frame] by blast
  moreover have "last (snd (iteration ?w [])) = WaitKey 1 (- 1)"
    by (simp add: run_simps)
  ultimately have "k = - 1"
    by simp
  with k show ?thesis
    by (simp add: scripted_world_def swap_channels_def sample_frame_def)
qed

text \<open>
  C5. When the camera handle reports that it is not open, the script prints the error
  message and exits, whatever the fuel: the trace ends there, with no read, no estimator
  call and no window.
\<close>

theorem open_failure_stops_before_loop:
  assumes "\<not> cap_isOpened w startup"
  shows "pose_detection fuel w =
      Exited (sys_exit_status None)
        (startup @ [IsOpened False, Print msg_open_error, SysExit None])
    \<and> reads_in (trace_of (pose_detection fuel w)) = 0
    \<and> estimator_calls (trace_of (pose_detection fuel w)) = 0
    \<and> filter is_ImShow (trace_of (pose_detection fuel w)) = []"
  using pose_detection_open_failed [OF assms, of fuel]
  by (simp add: startup_def reads_in_def estimator_calls_def)

text \<open>
  C5 on a scripted world with a closed camera, without fuel and with some.
\<close>

theorem open_failure_stops_before_loop_witness:
  "pose_detection 0 (scripted_world False (fails_then_delivers 0) (Some 7) 27) =
      Exited 0 [PoseInit pose_config, Print msg_starting, VideoCapture 0 CAP_V4L2,
                IsOpened False, Print msg_open_error, SysExit None]
   \<and> pose_detection 9 (scripted_world False (fails_then_delivers 0) (Some 7) 27) =
      Exited 0 [PoseInit pose_config, Print msg_starting, VideoCapture 0 CAP_V4L2,
                IsOpened False, Print msg_open_error, SysExit None]
   \<and> estimator_calls
        (trace_of (pose_detection 9 (scripted_world False (fails_then_delivers 0) (Some 7) 27))) = 0"
proof -
  let ?w = "scripted_world False (fails_then_delivers 0) (Some 7) 27"
  have "\<not> cap_isOpened ?w startup"
    by (simp add: scripted_world_def)
  from open_failure_stops_before_loop [OF this, of 0]
       open_failure_stops_before_loop [OF this, of 9]
  show ?thesis
    by (simp add: startup_def estimator_calls_def)
qed

text \<open>
  C6. In a pass where the estimator reports landmarks, \<open>draw_landmarks\<close> is called
  on the frame as read (not on \<open>img_rgb\<close>) with those landmarks and the fixed
  \<open>POSE_CONNECTIONS\<close>, and the window shows that same frame after drawing.
\<close>

theorem detection_drawn_on_original_frame:
  assumes "cap_read w h = (True, Some f)"
    and "pose_process w (h @ [Read True (Some f), CvtColor f COLOR_BGR2RGB])
           (cvtColor w f COLOR_BGR2RGB) = Some lms"
  shows "\<exists>k. snd (iteration w h) =
      [Read True (Some f), CvtColor f COLOR_BGR2RGB,
       Process (cvtColor w f COLOR_BGR2RGB) (Some lms),
       DrawLandmarks f lms (POSE_CONNECTIONS w),
       ImShow window_title (draw_landmarks w f lms (POSE_CONNECTIONS w)), WaitKey 1 k]"
proof -
  have "\<not> frame_rejected True (Some f)"
    by (simp add: frame_rejected_def)
  from iteration_accepted [OF assms(1) this]
  have "snd (iteration w h) =
      Read True (Some f) # snd (process_frame w (h @ [Read True (Some f)]) f)"
    by simp
  moreover from assms(2)
  have "pose_process w ((h @ [Read True (Some f)]) @ [CvtColor f COLOR_BGR2RGB])
           (cvtColor w f COLOR_BGR2RGB) = Some lms"
    by simp
  note process_frame_detection [OF this]
  ultimately show ?thesis
    by (simp add: Let_def)
qed

text \<open>
  C6 on a scripted world: drawing receives the pixels as read, the window the drawn
  frame.
\<close>

theorem detection_drawn_on_original_frame_witness:
  "snd (iteration (scripted_world True (fails_then_delivers 0) (Some 7) (- 1)) []) =
      [Read True (Some sample_frame), CvtColor sample_frame COLOR_BGR2RGB,
       Process [[(3, 2, 1)]] (Some 7),
       DrawLandmarks [[(1, 2, 3)]] 7 {(11, 12)},
       ImShow window_title [[(255, 255, 255)]], WaitKey 1 (- 1)]"
proof -
  let ?w = "scripted_world True (fails_then_delivers 0) (Some 7) (- 1)"
  have "cap_read ?w [] = (True, Some sample_frame)"
    by (simp add: run_simps)
  moreover have "pose_process ?w ([] @ [Read True (Some sample_frame),
       CvtColor sample_frame COLOR_BGR2RGB]) (cvtColor ?w sample_frame COLOR_BGR2RGB) = Some 7"
    by (simp add: scripted_world_def)
  ultimately obtain k where k: "snd (iteration ?w []) =
      [Read True (Some sample_frame), CvtColor sample_frame COLOR_BGR2RGB,
       Process (cvtColor ?w sample_frame COLOR_BGR2RGB) (Some 7),
       DrawLandmarks sample_frame 7 (POSE_CONNECTIONS ?w),
       ImShow window_title (draw_landmarks ?w sample_frame 7 (POSE_CONNECTIONS ?w)),
       WaitKey 1 k]"
    using detection_drawn_on_original_frame [of ?w "[]" sample_frame 7] by blast
  moreover have "last (snd (iteration ?w [])) = WaitKey 1 (- 1)"
    by (simp add: run_simps)
  ultimately have "k = - 1"
    by simp
  with k show ?thesis
    by (simp add: scripted_world_def swap_channels_def whiten_def sample_frame_def)
qed

text \<open>
  C7. When the loop ends, the script releases the camera, destroys all windows and is
  done: these two calls are all that follows the loop, and neither happens earlier. When
  the loop ended by the Escape test, its last event is the key poll that returned Escape,
  so the release follows that poll directly.
\<close>

theorem loop_exit_releases_camera_and_windows:
  assumes "cap_isOpened w startup"
    and "capture_loop fuel w configured = (e, evs)"
    and "e \<noteq> OutOfFuel"
  shows "pose_detection fuel w = Exited 0 (configured @ evs @ [Release, DestroyAllWindows])
    \<and> (e = BrokeOut \<longrightarrow> (\<exists>pre k. evs = pre @ [WaitKey 1 k] \<and> k AND 0xFF = 27))
    \<and> Release \<notin> set (configured @ evs) \<and> DestroyAllWindows \<notin> set (configured @ evs)"
proof (intro conjI impI)
  show "pose_detection fuel w = Exited 0 (configured @ evs @ [Release, DestroyAllWindows])"
    by (rule pose_detection_loop_ended [OF assms])
next
  assume "e = BrokeOut"
  with assms(2) have "fst (capture_loop fuel w configured) = BrokeOut"
    by simp
  from capture_loop_broke_out [OF this] assms(2)
  show "\<exists>pre k. evs = pre @ [WaitKey 1 k] \<and> k AND 0xFF = 27"
    by simp
next
  have in_loop: "\<forall>ev \<in> set evs. \<not> outside_loop ev"
    using capture_loop_inside [of fuel w configured] assms(2) by simp
  have "Release \<notin> set evs"
    using in_loop by force
  then show "Release \<notin> set (configured @ evs)"
    by (simp add: configured_def startup_def)
  have "DestroyAllWindows \<notin> set evs"
    using in_loop by force
  then show "DestroyAllWindows \<notin> set (configured @ evs)"
    by (simp add: configured_def startup_def)
qed

text \<open>
  C7 on a scripted world: one failed read, then a frame with Escape held.
\<close>

theorem loop_exit_releases_camera_and_windows_witness:
  "pose_detection 4 (scripted_world True (fails_then_delivers 1) None 27) =
     Exited 0 (configured @
       [IsOpened True, Read False None,
        IsOpened True, Read True (Some sample_frame), CvtColor sample_frame COLOR_BGR2RGB,
        Process (swap_channels sample_frame COLOR_BGR2RGB) None,
        ImShow window_title sample_frame, WaitKey 1 27,
        Release, DestroyAllWindows])"
proof -
  let ?w = "scripted_world True (fails_then_delivers 1) None 27"
  let ?evs = "[IsOpened True, Read False None,
        IsOpened True, Read True (Some sample_frame), CvtColor sample_frame COLOR_BGR2RGB,
        Process (swap_channels sample_frame COLOR_BGR2RGB) None,
        ImShow window_title sample_frame, WaitKey 1 27]"
  have "cap_isOpened ?w startup"
    by (simp add: scripted_world_def)
  moreover have "capture_loop 4 ?w configured = (BrokeOut, ?evs)"
    by (simp add: run_simps numeral_eq_Suc)
  moreover have "BrokeOut \<noteq> OutOfFuel"
    by simp
  ultimately show ?thesis
    using loop_exit_releases_camera_and_windows [of ?w 4 BrokeOut ?evs] by simp
qed

text \<open>
  C8. Every run starts by creating the estimator with \<open>static_image_mode=False\<close>,
  \<open>model_complexity=0\<close> (the least value of that selector) and both confidence
  thresholds 0.5, and by opening camera 0 with the \<open>CAP_V4L2\<close> backend; when the
  camera is open, the next two calls ask for a width of 640 and a height of 480.
\<close>

theorem initialisation_settings:
  "take 3 (trace_of (pose_detection fuel w)) =
     [PoseInit \<lparr>static_image_mode = False, model_complexity = 0,
                min_detection_confidence = 0.5, min_tracking_confidence = 0.5\<rparr>,
      Print msg_starting, VideoCapture 0 CAP_V4L2]
   \<and> (\<forall>c. model_complexity pose_config \<le> c)
   \<and> (cap_isOpened w startup \<longrightarrow>
        take 3 (drop 3 (trace_of (pose_detection fuel w))) =
          [IsOpened True, CapSet CAP_PROP_FRAME_WIDTH 640, CapSet CAP_PROP_FRAME_HEIGHT 480])"
proof -
  obtain e evs where l: "capture_loop fuel w configured = (e, evs)"
    by (cases "capture_loop fuel w configured")
  have opened: "\<exists>rest. trace_of (pose_detection fuel w) = configured @ rest"
    if "cap_isOpened w startup"
    using that l by (cases e) (simp_all add: pose_detection_def)
  have closed: "trace_of (pose_detection fuel w) =
      startup @ [IsOpened False, Print msg_open_error, SysExit None]"
    if "\<not> cap_isOpened w startup"
    using pose_detection_open_failed [OF that, of fuel] by simp
  have "take 3 (trace_of (pose_detection fuel w)) = startup"
    using opened closed by (cases "cap_isOpened w startup") (auto simp: configured_def startup_def)
  moreover have "take 3 (drop 3 (trace_of (pose_detection fuel w))) =
          [IsOpened True, CapSet CAP_PROP_FRAME_WIDTH 640, CapSet CAP_PROP_FRAME_HEIGHT 480]"
    if "cap_isOpened w startup"
    using opened [OF that] by (auto simp: configured_def startup_def)
  ultimately show ?thesis
    by (simp add: startup_def pose_config_def)
qed

text \<open>
  C8 on a scripted world with an open camera: the first six events.
\<close>

theorem initialisation_settings_witness:
  "take 6 (trace_of (pose_detection 0 (scripted_world True never_delivers None (- 1)))) =
     [PoseInit \<lparr>static_image_mode = False, model_complexity = 0,
                min_detection_confidence = 1 / 2, min_tracking_confidence = 1 / 2\<rparr>,
      Print msg_starting, VideoCapture 0 CAP_V4L2,
      IsOpened True, CapSet CAP_PROP_FRAME_WIDTH 640, CapSet CAP_PROP_FRAME_HEIGHT 480]"
proof -
  let ?w = "scripted_world True never_delivers None (- 1)"
  let ?tr = "trace_of (pose_detection 0 ?w)"
  have "cap_isOpened ?w startup"
    by (simp add: scripted_world_def)
  with initialisation_settings [of 0 ?w]
  have "take 3 ?tr =
     [PoseInit \<lparr>static_image_mode = False, model_complexity = 0,
                min_detection_confidence = 0.5, min_tracking_confidence = 0.5\<rparr>,
      Print msg_starting, VideoCapture 0 CAP_V4L2]"
    and "take 3 (drop 3 ?tr) =
          [IsOpened True, CapSet CAP_PROP_FRAME_WIDTH 640, CapSet CAP_PROP_FRAME_HEIGHT 480]"
    by simp_all
  moreover have "take 6 ?tr = take 3 ?tr @ take 3 (drop 3 ?tr)"
    by (simp add: take_add [of 3 3 ?tr, simplified])
  ultimately show ?thesis
    by simp
qed

text \<open>
  C9. A pass whose read is rejected consists of the read alone: no estimator call, no
  window, no key poll. Hence a run of the loop in which every read was rejected has
  polled no key and has not been left through the Escape test.
\<close>

theorem rejected_reads_never_reach_key_poll:
  "(cap_read w h = (success, frame) \<and> frame_rejected success frame \<longrightarrow>
      iteration w h = (Continue, [Read success frame]))
   \<and> (valid_reads (snd (capture_loop n w h)) = 0 \<longrightarrow>
        fst (capture_loop n w h) \<noteq> BrokeOut \<and>
        list_all (\<lambda>e. \<not> is_Process e \<and> \<not> is_ImShow e \<and> \<not> is_WaitKey e)
          (snd (capture_loop n w h)))"
  using iteration_rejected [of w h success frame] capture_loop_starved [of n w h]
  by blast

text \<open>
  C9 on a scripted world whose reads never carry a frame while Escape is held: the
  loop only tests the handle and reads, until the fuel is spent.
\<close>

theorem rejected_reads_never_reach_key_poll_witness:
  "iteration (scripted_world True never_delivers (Some 7) 27) [] = (Continue, [Read True None])
   \<and> capture_loop 3 (scripted_world True never_delivers (Some 7) 27) [] =
       (OutOfFuel, [IsOpened True, Read True None, IsOpened True, Read True None,
                    IsOpened True, Read True None])
   \<and> fst (capture_loop 3 (scripted_world True never_delivers (Some 7) 27) []) \<noteq> BrokeOut
   \<and> list_all (\<lambda>e. \<not> is_Process e \<and> \<not> is_ImShow e \<and> \<not> is_WaitKey e)
        (snd (capture_loop 3 (scripted_world True never_delivers (Some 7) 27) []))"
proof -
  let ?w = "scripted_world True never_delivers (Some 7) 27"
  have run: "capture_loop 3 ?w [] =
       (OutOfFuel, [IsOpened True, Read True None, IsOpened True, Read True None,
                    IsOpened True, Read True None])"
    by (simp add: run_simps numeral_eq_Suc)
  have "cap_read ?w [] = (True, None) \<and> frame_rejected True None"
    by (simp add: run_simps)
  with rejected_reads_never_reach_key_poll [of ?w "[]" True None 3]
  have a: "iteration ?w [] = (Continue, [Read True None])"
    by blast
  have "valid_reads (snd (capture_loop 3 ?w [])) = 0"
    unfolding run by (simp add: valid_reads_def frame_rejected_def)
  with rejected_reads_never_reach_key_poll [of ?w "[]" True None 3]
  have b: "fst (capture_loop 3 ?w []) \<noteq> BrokeOut \<and>
        list_all (\<lambda>e. \<not> is_Process e \<and> \<not> is_ImShow e \<and> \<not> is_WaitKey e)
          (snd (capture_loop 3 ?w []))"
    by blast
  from a b run show ?thesis
    by blast
qed

text \<open>
  C10. On the path where the camera does not open, neither \<open>cap.release\<close> nor
  \<open>cv2.destroyAllWindows\<close> is called; a run in which either call occurs has opened the
  camera and has left the loop.
\<close>

theorem cleanup_only_after_loop:
  "(\<not> cap_isOpened w startup \<longrightarrow>
      Release \<notin> set (trace_of (pose_detection fuel w)) \<and>
      DestroyAllWindows \<notin> set (trace_of (pose_detection fuel w)))
   \<and> (Release \<in> set (trace_of (pose_detection fuel w)) \<or>
       DestroyAllWindows \<in> set (trace_of (pose_detection fuel w)) \<longrightarrow>
      cap_isOpened w startup \<and> fst (capture_loop fuel w configured) \<noteq> OutOfFuel)"
proof -
  let ?tr = "trace_of (pose_detection fuel w)"
  have closed: "Release \<notin> set ?tr \<and> DestroyAllWindows \<notin> set ?tr"
    if "\<not> cap_isOpened w startup"
    using pose_detection_open_failed [OF that, of fuel] by (simp add: startup_def)
  have spinning: "Release \<notin> set ?tr \<and> DestroyAllWindows \<notin> set ?tr"
    if op: "cap_isOpened w startup" and out: "fst (capture_loop fuel w configured) = OutOfFuel"
  proof -
    obtain evs where l: "capture_loop fuel w configured = (OutOfFuel, evs)"
      using out by (cases "capture_loop fuel w configured") simp
    have in_loop: "\<forall>ev \<in> set evs. \<not> outside_loop ev"
      using capture_loop_inside [of fuel w configured] l by simp
    have "Release \<notin> set evs" "DestroyAllWindows \<notin> set evs"
      using in_loop by force+
    then show ?thesis
      using pose_detection_unfinished [OF op l] by (simp add: configured_def startup_def)
  qed
  from closed spinning show ?thesis
    by blast
qed

text \<open>
  C10 on two scripted worlds: a closed camera, and a run left through Escape.
\<close>

theorem cleanup_only_after_loop_witness:
  "Release \<notin> set (trace_of (pose_detection 5 (scripted_world False never_delivers None 27)))
   \<and> DestroyAllWindows \<notin>
       set (trace_of (pose_detection 5 (scripted_world False never_delivers None 27)))
   \<and> Release \<in>
       set (trace_of (pose_detection 5 (scripted_world True (fails_then_delivers 1) None 27)))
   \<and> fst (capture_loop 5 (scripted_world True (fails_then_delivers 1) None 27) configured)
       \<noteq> OutOfFuel"
proof -
  let ?closed = "scripted_world False never_delivers None 27"
  let ?esc = "scripted_world True (fails_then_delivers 1) None 27"
  have "\<not> cap_isOpened ?closed startup"
    by (simp add: scripted_world_def)
  with cleanup_only_after_loop [of ?closed 5]
  have a: "Release \<notin> set (trace_of (pose_detection 5 ?closed)) \<and>
      DestroyAllWindows \<notin> set (trace_of (pose_detection 5 ?closed))"
    by blast
  have b: "Release \<in> set (trace_of (pose_detection 5 ?esc))"
    by (simp add: run_simps numeral_eq_Suc)
  with cleanup_only_after_loop [of ?esc 5]
  have "fst (capture_loop 5 ?esc configured) \<noteq> OutOfFuel"
    by blast
  with a b show ?thesis
    by blast
qed

end
